theory Spec2Isabelle
  imports Complex_Main "HOL-Library.AList"
begin

section \<open>The instrument of \<open>synth.py\<close>\<close>

text \<open>
  The embedding follows \<open>class Instrument\<close> method by method. Python's numbers are
  modelled as exact reals (no rounding), NumPy arrays as lists of reals, and the two
  dictionaries \<open>pressed_keys\<close> and \<open>releasing_keys\<close> as association lists in insertion
  order, read with \<open>map_of\<close> and written with \<open>AList.update\<close> and \<open>AList.delete\<close>.
  Where a statement below concerns which branch a comparison of amplitudes takes, it is
  phrased for one tick and any stored amplitude, so that it does not rest on the exact
  value of a sum of ramp steps.
  A key symbol is one character; the seventeenth note key, n with tilde, is the
  character with code point \<open>0xF1\<close>.

  Every method takes the instrument and returns what Python returns or raises
  (\<open>Inl\<close> the exception) together with the instrument as the call leaves it, so that
  a mutation made before an exception is raised stays visible.
\<close>

datatype error = TypeError | KeyError | ZeroDivisionError | ValueError

record Note =
  fundamental :: real
  amp :: real

type_synonym registry = "(char \<times> Note) list"

record Instrument =
  harmonics :: "real list"
  amps :: "real list"
  attack :: real
  n_attack_samples :: real
  release :: real
  n_release_samples :: real
  sample_rate :: real
  chunk_size :: nat
  time_offset :: real
  buffer_time_lapse :: real
  time_chunk :: "real list"
  pressed_keys :: registry
  releasing_keys :: registry
  octave :: real

subsection \<open>NumPy helpers\<close>

text \<open>\<open>np.zeros(n)\<close>.\<close>

definition zeros :: "nat \<Rightarrow> real list" where
  "zeros n = replicate n 0"

text \<open>
  \<open>np.linspace(start, stop, num, endpoint=False)\<close>: the step is
  \<open>(stop - start) / num\<close> and sample \<open>i\<close> is \<open>i * step + start\<close>.
\<close>

definition linspace :: "real \<Rightarrow> real \<Rightarrow> nat \<Rightarrow> real list" where
  "linspace start stop num =
     map (\<lambda>i. real i * ((stop - start) / real num) + start) [0..<num]"

text \<open>Elementwise \<open>+\<close> and \<open>np.multiply\<close> on arrays of one shape.\<close>

definition array_add :: "real list \<Rightarrow> real list \<Rightarrow> real list" where
  "array_add xs ys = map2 (+) xs ys"

definition array_multiply :: "real list \<Rightarrow> real list \<Rightarrow> real list" where
  "array_multiply xs ys = map2 (*) xs ys"

subsection \<open>Construction\<close>

text \<open>
  \<open>__init__\<close>. The statement \<open>assert(len(amps) == len(harmonics), "...")\<close> tests a
  two-element tuple, which is true whatever the comparison gives, so it never fails;
  building the tuple still evaluates \<open>len(amps)\<close>, which raises \<open>TypeError\<close> when
  \<open>amps\<close> is \<open>None\<close>. \<open>chunk_size/sample_rate\<close> raises on a zero sample rate and
  \<open>np.linspace\<close> on a negative number of samples.
\<close>

definition init ::
  "real list \<Rightarrow> real list option \<Rightarrow> real \<Rightarrow> real \<Rightarrow> real \<Rightarrow> int \<Rightarrow> error + Instrument" where
  "init harmonics_arg amps_arg attack_arg release_arg sample_rate_arg chunk_size_arg =
     (case amps_arg of
        None \<Rightarrow> Inl TypeError
      | Some amps_given \<Rightarrow>
          (let n_attack0 = attack_arg * sample_rate_arg;
               n_attack1 = (if n_attack0 = 0 then 1 else n_attack0);
               n_release = release_arg * sample_rate_arg;
               n_attack2 = (if n_release = 0 then 1 else n_attack1)
           in if sample_rate_arg = 0 then Inl ZeroDivisionError
              else if chunk_size_arg < 0 then Inl ValueError
              else
                (let lapse = real_of_int chunk_size_arg / sample_rate_arg
                 in Inr \<lparr> harmonics = harmonics_arg,
                          amps = amps_given,
                          attack = attack_arg,
                          n_attack_samples = n_attack2,
                          release = release_arg,
                          n_release_samples = n_release,
                          sample_rate = sample_rate_arg,
                          chunk_size = nat chunk_size_arg,
                          time_offset = 0,
                          buffer_time_lapse = lapse,
                          time_chunk = linspace 0 lapse (nat chunk_size_arg),
                          pressed_keys = [],
                          releasing_keys = [],
                          octave = 1 \<rparr>)))"

subsection \<open>Key table\<close>

text \<open>
  \<open>_key_to_freq\<close>: the two octave keys change \<open>octave\<close> and fall off the end of the
  function (\<open>None\<close>), a note key returns its frequency, any other symbol returns \<open>None\<close>.
\<close>

definition key_to_freq :: "Instrument \<Rightarrow> char \<Rightarrow> real option \<times> Instrument" where
  "key_to_freq self in_key =
     (if in_key = CHR ''z'' then (None, self\<lparr>octave := octave self / 2\<rparr>)
      else if in_key = CHR ''x'' then (None, self\<lparr>octave := octave self * 2\<rparr>)
      else if in_key = CHR ''a'' then (Some 261.63, self)
      else if in_key = CHR ''w'' then (Some 277.18, self)
      else if in_key = CHR ''s'' then (Some 293.66, self)
      else if in_key = CHR ''e'' then (Some 311.13, self)
      else if in_key = CHR ''d'' then (Some 329.63, self)
      else if in_key = CHR ''f'' then (Some 349.23, self)
      else if in_key = CHR ''t'' then (Some 369.99, self)
      else if in_key = CHR ''g'' then (Some 392.00, self)
      else if in_key = CHR ''y'' then (Some 415.30, self)
      else if in_key = CHR ''h'' then (Some 440.00, self)
      else if in_key = CHR ''u'' then (Some 466.16, self)
      else if in_key = CHR ''j'' then (Some 493.88, self)
      else if in_key = CHR ''k'' then (Some 523.25, self)
      else if in_key = CHR ''o'' then (Some 554.37, self)
      else if in_key = CHR ''l'' then (Some 587.33, self)
      else if in_key = CHR ''p'' then (Some 622.25, self)
      else if in_key = CHR 0xF1 then (Some 659.25, self)
      else (None, self))"

subsection \<open>Waveform\<close>

text \<open>
  \<open>_generate_sound_chunk\<close>: one pass of the loop adds \<open>a*np.sin(2*np.pi*f*times)\<close> to the
  chunk, for the pairs of \<open>zip(fundamental*self.harmonics, self.amps)\<close>.
\<close>

definition add_harmonic :: "real list \<Rightarrow> real list \<Rightarrow> real \<times> real \<Rightarrow> real list" where
  "add_harmonic sample_times chunk fa =
     (case fa of (f, a) \<Rightarrow> array_add chunk (map (\<lambda>t. a * sin (2 * pi * f * t)) sample_times))"

definition generate_sound_chunk :: "Instrument \<Rightarrow> real \<Rightarrow> real list" where
  "generate_sound_chunk self fund =
     (let chunk = zeros (chunk_size self);
          sample_times = map (\<lambda>t. t + time_offset self) (time_chunk self)
      in foldl (add_harmonic sample_times) chunk
           (zip (map (\<lambda>h. fund * h) (harmonics self)) (amps self)))"

subsection \<open>Envelopes\<close>

text \<open>
  The body of the loop of \<open>_generate_pressed_sound\<close> for one key. A key missing from
  the dictionary is the \<open>KeyError\<close> the loop swallows. Dividing by a zero
  \<open>n_attack_samples\<close> raises, before anything is written. The sum \<open>amp_end\<close> is exact
  here and rounded in the code, so the tick on which \<open>amp_end >= 1\<close> first holds can
  differ by one where the exact sum is 1.
\<close>

definition pressed_body ::
  "char \<Rightarrow> real list \<Rightarrow> Instrument \<Rightarrow> (error + real list) \<times> Instrument" where
  "pressed_body key chunk self =
     (case map_of (pressed_keys self) key of
        None \<Rightarrow> (Inr chunk, self)
      | Some note \<Rightarrow>
          (let key_chunk = generate_sound_chunk self (fundamental note)
           in if amp note < 1 then
                (if n_attack_samples self = 0 then (Inl ZeroDivisionError, self)
                 else
                   (let amp_end = amp note + real (chunk_size self) / n_attack_samples self;
                        attack_envelope = linspace (amp note) amp_end (chunk_size self);
                        key_chunk' = array_multiply key_chunk attack_envelope;
                        note' = note\<lparr>amp := (if amp_end \<ge> 1 then 1 else amp_end)\<rparr>
                    in (Inr (array_add chunk key_chunk'),
                        self\<lparr>pressed_keys := AList.update key note' (pressed_keys self)\<rparr>)))
              else (Inr (array_add chunk key_chunk), self)))"

fun pressed_loop ::
  "char list \<Rightarrow> real list \<Rightarrow> Instrument \<Rightarrow> (error + real list) \<times> Instrument" where
  "pressed_loop [] chunk self = (Inr chunk, self)"
| "pressed_loop (key # keys) chunk self =
     (case pressed_body key chunk self of
        (Inl e, self') \<Rightarrow> (Inl e, self')
      | (Inr chunk', self') \<Rightarrow> pressed_loop keys chunk' self')"

definition generate_pressed_sound :: "Instrument \<Rightarrow> (error + real list) \<times> Instrument" where
  "generate_pressed_sound self =
     pressed_loop (map fst (pressed_keys self)) (zeros (chunk_size self)) self"

text \<open>
  The body of the loop of \<open>_generate_releasing_sound\<close>: a note with a positive
  amplitude is ramped down by \<open>chunk_size/n_attack_samples\<close> and stored as computed;
  a note whose stored amplitude is not positive is deleted. The difference \<open>amp_end\<close> is
  exact here and rounded in the code, so where the exact difference is 0 the code can
  hold a tiny positive amplitude instead.
\<close>

definition releasing_body ::
  "char \<Rightarrow> real list \<Rightarrow> Instrument \<Rightarrow> (error + real list) \<times> Instrument" where
  "releasing_body key chunk self =
     (case map_of (releasing_keys self) key of
        None \<Rightarrow> (Inr chunk, self)
      | Some note \<Rightarrow>
          (if amp note > 0 then
             (let key_chunk = generate_sound_chunk self (fundamental note)
              in if n_attack_samples self = 0 then (Inl ZeroDivisionError, self)
                 else
                   (let amp_end = amp note - real (chunk_size self) / n_attack_samples self;
                        attack_envelope = linspace (amp note) amp_end (chunk_size self);
                        key_chunk' = array_multiply key_chunk attack_envelope
                    in (Inr (array_add chunk key_chunk'),
                        self\<lparr>releasing_keys :=
                               AList.update key (note\<lparr>amp := amp_end\<rparr>) (releasing_keys self)\<rparr>)))
           else (Inr chunk, self\<lparr>releasing_keys := AList.delete key (releasing_keys self)\<rparr>)))"

fun releasing_loop ::
  "char list \<Rightarrow> real list \<Rightarrow> Instrument \<Rightarrow> (error + real list) \<times> Instrument" where
  "releasing_loop [] chunk self = (Inr chunk, self)"
| "releasing_loop (key # keys) chunk self =
     (case releasing_body key chunk self of
        (Inl e, self') \<Rightarrow> (Inl e, self')
      | (Inr chunk', self') \<Rightarrow> releasing_loop keys chunk' self')"

definition generate_releasing_sound :: "Instrument \<Rightarrow> (error + real list) \<times> Instrument" where
  "generate_releasing_sound self =
     releasing_loop (map fst (releasing_keys self)) (zeros (chunk_size self)) self"

subsection \<open>Key events\<close>

text \<open>
  \<open>key_press\<close>: \<open>self.octave*self._key_to_freq(in_key)\<close> reads \<open>octave\<close>, then makes the
  call, then multiplies; multiplying a number by \<open>None\<close> raises \<open>TypeError\<close>. A float is
  true when it is not zero. Here \<open>octave\<close> is a real: halving never makes it zero and
  doubling never overflows, which a double does after about a thousand octave keys in
  one direction; statements about a created voice bound \<open>octave\<close> accordingly.
\<close>

definition key_press :: "Instrument \<Rightarrow> char \<Rightarrow> (error + unit) \<times> Instrument" where
  "key_press self in_key =
     (case key_to_freq self in_key of
        (None, self') \<Rightarrow> (Inl TypeError, self')
      | (Some freq, self') \<Rightarrow>
          (let fund = octave self * freq
           in if fund \<noteq> 0 then
                (Inr (), self'\<lparr>pressed_keys :=
                   AList.update in_key \<lparr>fundamental = fund, amp = 0\<rparr> (pressed_keys self')\<rparr>)
              else (Inr (), self')))"

text \<open>
  \<open>key_release\<close>: the right-hand side \<open>self.pressed_keys[in_key]\<close> is evaluated before
  anything is stored, so a missing key raises \<open>KeyError\<close> with both dictionaries as
  they were.
\<close>

definition key_release :: "Instrument \<Rightarrow> char \<Rightarrow> (error + unit) \<times> Instrument" where
  "key_release self in_key =
     (case key_to_freq self in_key of
        (None, self') \<Rightarrow> (Inr (), self')
      | (Some freq, self') \<Rightarrow>
          (if freq \<noteq> 0 then
             (case map_of (pressed_keys self') in_key of
                None \<Rightarrow> (Inl KeyError, self')
              | Some note \<Rightarrow>
                  (Inr (), self'\<lparr>releasing_keys :=
                              AList.update in_key
                                \<lparr>fundamental = fundamental note, amp = amp note\<rparr>
                                (releasing_keys self'),
                            pressed_keys := AList.delete in_key (pressed_keys self')\<rparr>))
           else (Inr (), self')))"

subsection \<open>Render loop\<close>

text \<open>
  One pass of the \<open>while True\<close> loop of \<open>emit_sound\<close>. The value is the chunk handed to
  the stream (before its cast to 32-bit floats), or \<open>None\<close> when nothing is written.
\<close>

definition emit_sound_iteration :: "Instrument \<Rightarrow> (error + real list option) \<times> Instrument" where
  "emit_sound_iteration self =
     (if pressed_keys self = [] \<and> releasing_keys self = [] then
        (Inr None, self\<lparr>time_offset := 0\<rparr>)
      else
        (case generate_pressed_sound self of
           (Inl e, self1) \<Rightarrow> (Inl e, self1)
         | (Inr pressed_chunk, self1) \<Rightarrow>
             (case generate_releasing_sound self1 of
                (Inl e, self2) \<Rightarrow> (Inl e, self2)
              | (Inr releasing_chunk, self2) \<Rightarrow>
                  (let chunk = array_add (zeros (chunk_size self2))
                                 (array_add pressed_chunk releasing_chunk);
                       t = time_offset self2 + buffer_time_lapse self2
                   in (Inr (Some chunk),
                       self2\<lparr>time_offset := (if t > 360 then 0 else t)\<rparr>)))))"

text \<open>
  The loop never ends by itself, so \<open>emit_sound n\<close> is its first \<open>n\<close> passes: the chunks
  written so far and the instrument, or the exception that ended the loop.
\<close>

fun emit_sound :: "nat \<Rightarrow> Instrument \<Rightarrow> (error + real list list) \<times> Instrument" where
  "emit_sound 0 self = (Inr [], self)"
| "emit_sound (Suc n) self =
     (case emit_sound_iteration self of
        (Inl e, self') \<Rightarrow> (Inl e, self')
      | (Inr out, self') \<Rightarrow>
          (case emit_sound n self' of
             (Inl e, self'') \<Rightarrow> (Inl e, self'')
           | (Inr outs, self'') \<Rightarrow>
               (Inr ((case out of None \<Rightarrow> [] | Some chunk \<Rightarrow> [chunk]) @ outs), self'')))"

subsection \<open>Event sequences\<close>

text \<open>
  The listener callbacks of the script call \<open>key_press\<close> and \<open>key_release\<close> inside
  \<open>try ... except: pass\<close>, so after an exception the instrument goes on from the
  state the call left. A tick is one pass of the render loop.
\<close>

datatype event = KeyDown char | KeyUp char | Tick

fun step :: "Instrument \<Rightarrow> event \<Rightarrow> Instrument" where
  "step self (KeyDown k) = snd (key_press self k)"
| "step self (KeyUp k) = snd (key_release self k)"
| "step self Tick = snd (emit_sound_iteration self)"

definition run :: "event list \<Rightarrow> Instrument \<Rightarrow> Instrument" where
  "run evs self = foldl step self evs"

subsection \<open>The instrument after a tick\<close>

text \<open>
  What a pass of the render loop leaves in the instrument does not depend on the samples
  it computes. The functions below give that state alone: \<open>ramp\<close> is the quotient
  \<open>chunk_size/n_attack_samples\<close> both envelopes use, \<open>attack_key\<close> and \<open>release_key\<close>
  are what the two loop bodies do to their dictionary, and \<open>tick_state\<close> is the
  instrument after one pass. They are proved equal to the state component of
  \<open>emit_sound_iteration\<close> below.
\<close>

definition ramp :: "Instrument \<Rightarrow> real" where
  "ramp self = real (chunk_size self) / n_attack_samples self"

definition attack_note :: "real \<Rightarrow> Note \<Rightarrow> Note" where
  "attack_note d note =
     (if amp note < 1 then note\<lparr>amp := (if amp note + d \<ge> 1 then 1 else amp note + d)\<rparr>
      else note)"

definition attack_key :: "real \<Rightarrow> char \<Rightarrow> registry \<Rightarrow> registry" where
  "attack_key d key pk =
     (case map_of pk key of None \<Rightarrow> pk
      | Some note \<Rightarrow> AList.update key (attack_note d note) pk)"

definition release_key :: "real \<Rightarrow> char \<Rightarrow> registry \<Rightarrow> registry" where
  "release_key d key rk =
     (case map_of rk key of None \<Rightarrow> rk
      | Some note \<Rightarrow>
          if amp note > 0 then AList.update key (note\<lparr>amp := amp note - d\<rparr>) rk
          else AList.delete key rk)"

definition tick_state :: "Instrument \<Rightarrow> Instrument" where
  "tick_state self =
     (if pressed_keys self = [] \<and> releasing_keys self = [] then self\<lparr>time_offset := 0\<rparr>
      else self\<lparr>pressed_keys :=
                   fold (attack_key (ramp self)) (map fst (pressed_keys self)) (pressed_keys self),
                releasing_keys :=
                   fold (release_key (ramp self)) (map fst (releasing_keys self)) (releasing_keys self),
                time_offset :=
                   (if time_offset self + buffer_time_lapse self > 360 then 0
                    else time_offset self + buffer_time_lapse self)\<rparr>)"

subsection \<open>Example instruments\<close>

text \<open>
  \<open>Instrument(harmonics=[1], amps=[1])\<close> with the default attack, release, sample rate
  and chunk size, as \<open>__init__\<close> leaves it.
\<close>

definition default_instrument :: Instrument where
  "default_instrument =
     \<lparr> harmonics = [1], amps = [1], attack = 0.1, n_attack_samples = 4410,
       release = 0.6, n_release_samples = 26460, sample_rate = 44100, chunk_size = 512,
       time_offset = 0, buffer_time_lapse = 512 / 44100,
       time_chunk = linspace 0 (512 / 44100) 512,
       pressed_keys = [], releasing_keys = [], octave = 1 \<rparr>"


text \<open>
  \<open>Instrument(harmonics=[1], amps=[1], attack=1, release=1, sample_rate=8, chunk_size=3)\<close>:
  attack and release last the same eight samples, and the ramp step \<open>3/8\<close> and every
  amplitude built from it is a binary fraction, which a double holds exactly.
\<close>

definition dyadic_instrument :: Instrument where
  "dyadic_instrument =
     \<lparr> harmonics = [1], amps = [1], attack = 1, n_attack_samples = 8,
       release = 1, n_release_samples = 8, sample_rate = 8, chunk_size = 3,
       time_offset = 0, buffer_time_lapse = 3 / 8,
       time_chunk = linspace 0 (3 / 8) 3,
       pressed_keys = [], releasing_keys = [], octave = 1 \<rparr>"

subsection \<open>Invariants of reachable instruments\<close>


definition is_note_key :: "char \<Rightarrow> bool" where
  "is_note_key k \<longleftrightarrow> fst (key_to_freq default_instrument k) \<noteq> None"

definition well_formed :: "Instrument \<Rightarrow> bool" where
  "well_formed self \<longleftrightarrow>
     n_attack_samples self \<noteq> 0 \<and> 0 < octave self \<and>
     distinct (map fst (pressed_keys self)) \<and> distinct (map fst (releasing_keys self)) \<and>
     list_all is_note_key (map fst (pressed_keys self))"

subsection \<open>The waveform in closed form\<close>

text \<open>
  The phase function as the specification words it: the sum over the harmonics \<open>k\<close> of
  \<open>weight[k] * sin(2 * pi * fundamental * ratio[k] * t)\<close>. It is compared below with what
  \<open>_generate_sound_chunk\<close> computes.
\<close>

definition closed_form :: "real \<Rightarrow> real list \<Rightarrow> real list \<Rightarrow> real \<Rightarrow> real" where
  "closed_form fund ratios weights t =
     (\<Sum>k<min (length ratios) (length weights).
        weights ! k * sin (2 * pi * fund * ratios ! k * t))"

section \<open>State lemmas\<close>

lemma init_default: "init [1] (Some [1]) 0.1 0.6 44100 512 = Inr default_instrument"
  by (simp add: init_def default_instrument_def Let_def)

lemma pressed_body_state:
  assumes "n_attack_samples self \<noteq> 0"
  shows "\<exists>c. pressed_body key chunk self =
           (Inr c, self\<lparr>pressed_keys := attack_key (ramp self) key (pressed_keys self)\<rparr>)"
proof (cases "map_of (pressed_keys self) key")
  case None
  then show ?thesis by (simp add: pressed_body_def attack_key_def)
next
  case (Some nt)
  show ?thesis
  proof (cases "amp nt < 1")
    case True
    then show ?thesis using Some assms
      by (simp add: pressed_body_def Let_def attack_note_def ramp_def attack_key_def)
  next
    case False
    then have "attack_note (ramp self) nt = nt" by (simp add: attack_note_def)
    then have "attack_key (ramp self) key (pressed_keys self) = pressed_keys self"
      using Some by (simp add: attack_key_def update_triv)
    then show ?thesis using Some False by (simp add: pressed_body_def Let_def)
  qed
qed

lemma pressed_loop_state:
  assumes "n_attack_samples self \<noteq> 0"
  shows "\<exists>c. pressed_loop keys chunk self =
           (Inr c, self\<lparr>pressed_keys := fold (attack_key (ramp self)) keys (pressed_keys self)\<rparr>)"
  using assms
proof (induction keys arbitrary: chunk self)
  case Nil
  then show ?case by simp
next
  case (Cons key keys)
  let ?s1 = "self\<lparr>pressed_keys := attack_key (ramp self) key (pressed_keys self)\<rparr>"
  obtain c1 where b: "pressed_body key chunk self = (Inr c1, ?s1)"
    using pressed_body_state [OF Cons.prems] by blast
  have n1: "n_attack_samples ?s1 \<noteq> 0" using Cons.prems by simp
  have r: "ramp ?s1 = ramp self" by (simp add: ramp_def)
  obtain c2 where l: "pressed_loop keys c1 ?s1 =
      (Inr c2, ?s1\<lparr>pressed_keys := fold (attack_key (ramp ?s1)) keys (pressed_keys ?s1)\<rparr>)"
    using Cons.IH [OF n1] by blast
  show ?case using b l r by simp
qed

lemma releasing_body_state:
  assumes "n_attack_samples self \<noteq> 0"
  shows "\<exists>c. releasing_body key chunk self =
           (Inr c, self\<lparr>releasing_keys := release_key (ramp self) key (releasing_keys self)\<rparr>)"
proof (cases "map_of (releasing_keys self) key")
  case None
  then show ?thesis by (simp add: releasing_body_def release_key_def)
next
  case (Some nt)
  then show ?thesis using assms
    by (simp add: releasing_body_def Let_def ramp_def release_key_def)
qed

lemma releasing_loop_state:
  assumes "n_attack_samples self \<noteq> 0"
  shows "\<exists>c. releasing_loop keys chunk self =
           (Inr c, self\<lparr>releasing_keys := fold (release_key (ramp self)) keys (releasing_keys self)\<rparr>)"
  using assms
proof (induction keys arbitrary: chunk self)
  case Nil
  then show ?case by simp
next
  case (Cons key keys)
  let ?s1 = "self\<lparr>releasing_keys := release_key (ramp self) key (releasing_keys self)\<rparr>"
  obtain c1 where b: "releasing_body key chunk self = (Inr c1, ?s1)"
    using releasing_body_state [OF Cons.prems] by blast
  have n1: "n_attack_samples ?s1 \<noteq> 0" using Cons.prems by simp
  have r: "ramp ?s1 = ramp self" by (simp add: ramp_def)
  obtain c2 where l: "releasing_loop keys c1 ?s1 =
      (Inr c2, ?s1\<lparr>releasing_keys := fold (release_key (ramp ?s1)) keys (releasing_keys ?s1)\<rparr>)"
    using Cons.IH [OF n1] by blast
  show ?case using b l r by simp
qed

lemma emit_sound_iteration_state:
  assumes "n_attack_samples self \<noteq> 0"
  shows "\<exists>out. emit_sound_iteration self = (Inr out, tick_state self)"
proof (cases "pressed_keys self = [] \<and> releasing_keys self = []")
  case True
  then show ?thesis by (simp add: emit_sound_iteration_def tick_state_def)
next
  case False
  let ?s1 = "self\<lparr>pressed_keys :=
                   fold (attack_key (ramp self)) (map fst (pressed_keys self)) (pressed_keys self)\<rparr>"
  obtain c1 where p: "generate_pressed_sound self = (Inr c1, ?s1)"
    using pressed_loop_state [OF assms] unfolding generate_pressed_sound_def by blast
  have n1: "n_attack_samples ?s1 \<noteq> 0" using assms by simp
  have r: "ramp ?s1 = ramp self" by (simp add: ramp_def)
  obtain c2 where q: "generate_releasing_sound ?s1 =
      (Inr c2, ?s1\<lparr>releasing_keys :=
          fold (release_key (ramp ?s1)) (map fst (releasing_keys ?s1)) (releasing_keys ?s1)\<rparr>)"
    using releasing_loop_state [OF n1] unfolding generate_releasing_sound_def by blast
  have e: "emit_sound_iteration self =
      (case generate_pressed_sound self of
           (Inl e, self1) \<Rightarrow> (Inl e, self1)
         | (Inr pressed_chunk, self1) \<Rightarrow>
             (case generate_releasing_sound self1 of
                (Inl e, self2) \<Rightarrow> (Inl e, self2)
              | (Inr releasing_chunk, self2) \<Rightarrow>
                  (let chunk = array_add (zeros (chunk_size self2))
                                 (array_add pressed_chunk releasing_chunk);
                       t = time_offset self2 + buffer_time_lapse self2
                   in (Inr (Some chunk),
                       self2\<lparr>time_offset := (if t > 360 then 0 else t)\<rparr>))))"
    using False unfolding emit_sound_iteration_def by (rule if_not_P)
  have t: "tick_state self =
      self\<lparr>pressed_keys :=
                   fold (attack_key (ramp self)) (map fst (pressed_keys self)) (pressed_keys self),
                releasing_keys :=
                   fold (release_key (ramp self)) (map fst (releasing_keys self)) (releasing_keys self),
                time_offset :=
                   (if time_offset self + buffer_time_lapse self > 360 then 0
                    else time_offset self + buffer_time_lapse self)\<rparr>"
    using False unfolding tick_state_def by (rule if_not_P)
  show ?thesis unfolding e t using p q r by (simp add: Let_def)
qed

lemma emit_sound_iteration_snd:
  "n_attack_samples self \<noteq> 0 \<Longrightarrow> snd (emit_sound_iteration self) = tick_state self"
  using emit_sound_iteration_state [of self] by auto

lemmas eval_defs = run_def emit_sound_iteration_snd tick_state_def attack_key_def
  release_key_def attack_note_def ramp_def key_press_def key_release_def key_to_freq_def

subsection \<open>Key events\<close>

lemma key_to_freq_snd:
  "snd (key_to_freq self k) =
     (if k = CHR ''z'' then self\<lparr>octave := octave self / 2\<rparr>
      else if k = CHR ''x'' then self\<lparr>octave := octave self * 2\<rparr> else self)"
  by (simp add: key_to_freq_def)

lemma key_to_freq_fst_indep: "fst (key_to_freq self k) = fst (key_to_freq self' k)"
  by (simp add: key_to_freq_def)

lemma key_to_freq_Some:
  assumes "fst (key_to_freq self k) = Some f"
  shows "key_to_freq self k = (Some f, self) \<and> 0 < f"
proof -
  have "k \<noteq> CHR ''z'' \<and> k \<noteq> CHR ''x''"
    using assms by (auto simp: key_to_freq_def)
  then have "snd (key_to_freq self k) = self" by (simp add: key_to_freq_snd)
  moreover have "0 < f" using assms by (simp add: key_to_freq_def split: if_splits)
  ultimately show ?thesis using assms by (metis prod.collapse)
qed

lemma note_copy: "\<lparr>fundamental = fundamental nt, amp = amp nt\<rparr> = (nt::Note)"
  by (cases nt) simp

lemma key_release_None:
  assumes "fst (key_to_freq self k) = None"
  shows "key_release self k = (Inr (), snd (key_to_freq self k))"
  using assms by (cases "key_to_freq self k") (simp add: key_release_def)

lemma key_release_Some:
  assumes "fst (key_to_freq self k) = Some f"
  shows "key_release self k =
     (case map_of (pressed_keys self) k of
        None \<Rightarrow> (Inl KeyError, self)
      | Some nt \<Rightarrow>
          (Inr (), self\<lparr>releasing_keys := AList.update k nt (releasing_keys self),
                        pressed_keys := AList.delete k (pressed_keys self)\<rparr>))"
proof -
  have "key_to_freq self k = (Some f, self)" and "f \<noteq> 0"
    using key_to_freq_Some [OF assms] by auto
  then show ?thesis by (simp add: key_release_def note_copy split: option.split)
qed

lemma key_press_None:
  assumes "fst (key_to_freq self k) = None"
  shows "key_press self k = (Inl TypeError, snd (key_to_freq self k))"
  using assms by (cases "key_to_freq self k") (simp add: key_press_def)

lemma key_press_Some:
  assumes "fst (key_to_freq self k) = Some f"
  shows "key_press self k =
     (if octave self * f \<noteq> 0 then
        (Inr (), self\<lparr>pressed_keys :=
            AList.update k \<lparr>fundamental = octave self * f, amp = 0\<rparr> (pressed_keys self)\<rparr>)
      else (Inr (), self))"
proof -
  have "key_to_freq self k = (Some f, self)"
    using key_to_freq_Some [OF assms] by auto
  then show ?thesis by (simp add: key_press_def Let_def)
qed



subsection \<open>Registries under a tick and under key events\<close>



lemma keys_attack_key: "map fst (attack_key d key pk) = map fst pk"
proof (cases "map_of pk key")
  case None then show ?thesis by (simp add: attack_key_def)
next
  case (Some nt)
  then have "key \<in> fst ` set pk" by (metis map_of_eq_None_iff option.distinct(1))
  then show ?thesis using Some by (simp add: attack_key_def update_keys)
qed

lemma keys_fold_attack_key: "map fst (fold (attack_key d) keys pk) = map fst pk"
  by (induction keys arbitrary: pk) (simp_all add: keys_attack_key)

lemma distinct_release_key:
  "distinct (map fst rk) \<Longrightarrow> distinct (map fst (release_key d key rk))"
  by (cases "map_of rk key") (auto simp: release_key_def distinct_update distinct_delete)

lemma distinct_fold_release_key:
  "distinct (map fst rk) \<Longrightarrow> distinct (map fst (fold (release_key d) keys rk))"
  by (induction keys arbitrary: rk) (simp_all add: distinct_release_key)





lemma tick_state_frame:
  "\<exists>p r t. tick_state self = self\<lparr>pressed_keys := p, releasing_keys := r, time_offset := t\<rparr> \<and>
      map fst p = map fst (pressed_keys self) \<and>
      (distinct (map fst (releasing_keys self)) \<longrightarrow> distinct (map fst r))"
proof (cases "pressed_keys self = [] \<and> releasing_keys self = []")
  case True
  then have "tick_state self = self\<lparr>pressed_keys := pressed_keys self,
      releasing_keys := releasing_keys self, time_offset := 0\<rparr>"
    by (simp add: tick_state_def)
  then show ?thesis by blast
next
  case False
  let ?p = "fold (attack_key (ramp self)) (map fst (pressed_keys self)) (pressed_keys self)"
  let ?r = "fold (release_key (ramp self)) (map fst (releasing_keys self)) (releasing_keys self)"
  let ?t = "if time_offset self + buffer_time_lapse self > 360 then 0
                    else time_offset self + buffer_time_lapse self"
  have "tick_state self = self\<lparr>pressed_keys := ?p, releasing_keys := ?r, time_offset := ?t\<rparr>"
    using False unfolding tick_state_def by (rule if_not_P)
  moreover have "map fst ?p = map fst (pressed_keys self)" by (rule keys_fold_attack_key)
  moreover have "distinct (map fst (releasing_keys self)) \<longrightarrow> distinct (map fst ?r)"
    by (simp add: distinct_fold_release_key)
  ultimately show ?thesis by blast
qed

lemma is_note_key_iff: "is_note_key k \<longleftrightarrow> fst (key_to_freq self k) \<noteq> None"
  unfolding is_note_key_def using key_to_freq_fst_indep [of self k default_instrument] by simp

lemma not_note_key_state:
  assumes "\<not> is_note_key k"
  shows "\<exists>v. snd (key_to_freq self k) = self\<lparr>octave := v\<rparr> \<and> (0 < octave self \<longrightarrow> 0 < v)"
proof -
  have "snd (key_to_freq self k) = self\<lparr>octave := octave (snd (key_to_freq self k))\<rparr>"
    by (simp add: key_to_freq_snd)
  moreover have "0 < octave self \<longrightarrow> 0 < octave (snd (key_to_freq self k))"
    by (simp add: key_to_freq_snd)
  ultimately show ?thesis by blast
qed

lemma step_KeyDown_note:
  assumes "is_note_key k" "0 < octave self"
  shows "\<exists>f. fst (key_to_freq self k) = Some f \<and> 0 < f \<and>
     step self (KeyDown k) = self\<lparr>pressed_keys :=
            AList.update k \<lparr>fundamental = octave self * f, amp = 0\<rparr> (pressed_keys self)\<rparr>"
proof -
  obtain f where f: "fst (key_to_freq self k) = Some f"
    using assms(1) is_note_key_iff [of k self] by auto
  then have "0 < f" using key_to_freq_Some by blast
  then have "octave self * f \<noteq> 0" using assms(2) by simp
  then show ?thesis using key_press_Some [OF f] f \<open>0 < f\<close> by simp
qed

lemma step_KeyDown_other:
  assumes "\<not> is_note_key k"
  shows "step self (KeyDown k) = snd (key_to_freq self k)"
proof -
  have "fst (key_to_freq self k) = None" using assms is_note_key_iff [of k self] by simp
  then show ?thesis by (simp add: key_press_None)
qed

lemma step_KeyUp_note:
  assumes "is_note_key k"
  shows "step self (KeyUp k) =
     (case map_of (pressed_keys self) k of
        None \<Rightarrow> self
      | Some nt \<Rightarrow> self\<lparr>releasing_keys := AList.update k nt (releasing_keys self),
                        pressed_keys := AList.delete k (pressed_keys self)\<rparr>)"
proof -
  obtain f where f: "fst (key_to_freq self k) = Some f"
    using assms is_note_key_iff [of k self] by auto
  show ?thesis by (simp add: key_release_Some [OF f] split: option.split)
qed

lemma step_KeyUp_other:
  assumes "\<not> is_note_key k"
  shows "step self (KeyUp k) = snd (key_to_freq self k)"
proof -
  have "fst (key_to_freq self k) = None" using assms is_note_key_iff [of k self] by simp
  then show ?thesis by (simp add: key_release_None)
qed

lemma step_Tick: "n_attack_samples self \<noteq> 0 \<Longrightarrow> step self Tick = tick_state self"
  by (simp add: emit_sound_iteration_snd)

lemma list_all_update_keys:
  "list_all P (map fst al) \<Longrightarrow> P k \<Longrightarrow> list_all P (map fst (AList.update k v al))"
  by (simp add: update_keys list_all_iff)

lemma list_all_delete_keys:
  "list_all P (map fst al) \<Longrightarrow> list_all P (map fst (AList.delete k al))"
  by (auto simp: delete_keys list_all_iff)

lemma step_well_formed:
  assumes "well_formed self"
  shows "well_formed (step self e)"
proof (cases e)
  case (KeyDown k)
  show ?thesis
  proof (cases "is_note_key k")
    case True
    obtain f where "step self (KeyDown k) = self\<lparr>pressed_keys :=
            AList.update k \<lparr>fundamental = octave self * f, amp = 0\<rparr> (pressed_keys self)\<rparr>"
      using step_KeyDown_note [OF True] assms by (auto simp: well_formed_def)
    then show ?thesis using assms True KeyDown
      by (simp add: well_formed_def distinct_update list_all_update_keys)
  next
    case False
    obtain v where "snd (key_to_freq self k) = self\<lparr>octave := v\<rparr>" "0 < v"
      using not_note_key_state [OF False, of self] assms by (auto simp: well_formed_def)
    then show ?thesis using assms KeyDown step_KeyDown_other [OF False, of self]
      by (simp add: well_formed_def)
  qed
next
  case (KeyUp k)
  show ?thesis
  proof (cases "is_note_key k")
    case True
    show ?thesis using assms KeyUp step_KeyUp_note [OF True, of self]
      by (simp add: well_formed_def distinct_update distinct_delete list_all_delete_keys
            split: option.split)
  next
    case False
    obtain v where "snd (key_to_freq self k) = self\<lparr>octave := v\<rparr>" "0 < v"
      using not_note_key_state [OF False, of self] assms by (auto simp: well_formed_def)
    then show ?thesis using assms KeyUp step_KeyUp_other [OF False, of self]
      by (simp add: well_formed_def)
  qed
next
  case Tick
  obtain p r t where
    "tick_state self = self\<lparr>pressed_keys := p, releasing_keys := r, time_offset := t\<rparr>"
    "map fst p = map fst (pressed_keys self)"
    "distinct (map fst (releasing_keys self)) \<longrightarrow> distinct (map fst r)"
    using tick_state_frame [of self] by blast
  then show ?thesis using assms Tick step_Tick [of self]
    by (simp add: well_formed_def)
qed

lemma step_frame:
  assumes "well_formed self"
  shows "\<exists>p r v t. step self e =
     self\<lparr>pressed_keys := p, releasing_keys := r, octave := v, time_offset := t\<rparr>"
proof -
  have a: "s = self\<lparr>pressed_keys := pressed_keys s, releasing_keys := releasing_keys s,
              octave := octave s, time_offset := time_offset s\<rparr>"
    if "\<exists>p r v t. s = self\<lparr>pressed_keys := p, releasing_keys := r, octave := v, time_offset := t\<rparr>"
    for s using that by auto
  show ?thesis
  proof (cases e)
    case (KeyDown k)
    show ?thesis
    proof (cases "is_note_key k")
      case True
      obtain f where "step self (KeyDown k) = self\<lparr>pressed_keys :=
            AList.update k \<lparr>fundamental = octave self * f, amp = 0\<rparr> (pressed_keys self)\<rparr>"
        using step_KeyDown_note [OF True] assms by (auto simp: well_formed_def)
      then have "step self e = self\<lparr>pressed_keys :=
            AList.update k \<lparr>fundamental = octave self * f, amp = 0\<rparr> (pressed_keys self),
            releasing_keys := releasing_keys self, octave := octave self,
            time_offset := time_offset self\<rparr>"
        using KeyDown by simp
      then show ?thesis by blast
    next
      case False
      obtain v where "snd (key_to_freq self k) = self\<lparr>octave := v\<rparr>"
        using not_note_key_state [OF False, of self] by auto
      then have "step self e = self\<lparr>pressed_keys := pressed_keys self,
            releasing_keys := releasing_keys self, octave := v, time_offset := time_offset self\<rparr>"
        using KeyDown step_KeyDown_other [OF False, of self] by simp
      then show ?thesis by blast
    qed
  next
    case (KeyUp k)
    show ?thesis
    proof (cases "is_note_key k")
      case True
      have "step self e = self\<lparr>pressed_keys := pressed_keys (step self e),
            releasing_keys := releasing_keys (step self e), octave := octave self,
            time_offset := time_offset self\<rparr>"
        using KeyUp step_KeyUp_note [OF True, of self] by (simp split: option.split)
      then show ?thesis by blast
    next
      case False
      obtain v where "snd (key_to_freq self k) = self\<lparr>octave := v\<rparr>"
        using not_note_key_state [OF False, of self] by auto
      then have "step self e = self\<lparr>pressed_keys := pressed_keys self,
            releasing_keys := releasing_keys self, octave := v, time_offset := time_offset self\<rparr>"
        using KeyUp step_KeyUp_other [OF False, of self] by simp
      then show ?thesis by blast
    qed
  next
    case Tick
    obtain p r t where
      "tick_state self = self\<lparr>pressed_keys := p, releasing_keys := r, time_offset := t\<rparr>"
      using tick_state_frame [of self] by blast
    then have "step self e = self\<lparr>pressed_keys := p, releasing_keys := r,
          octave := octave self, time_offset := t\<rparr>"
      using Tick step_Tick [of self] assms by (simp add: well_formed_def)
    then show ?thesis by blast
  qed
qed

lemma run_Nil: "run [] self = self"
  by (simp add: run_def)

lemma run_Cons: "run (e # evs) self = run evs (step self e)"
  by (simp add: run_def)

lemma run_snoc: "run (evs @ [e]) self = step (run evs self) e"
  by (simp add: run_def)


lemma run_well_formed: "well_formed self \<Longrightarrow> well_formed (run evs self)"
  by (induction evs arbitrary: self) (simp_all add: run_Nil run_Cons step_well_formed)

lemma run_frame:
  assumes "well_formed self"
  shows "\<exists>p r v t. run evs self =
     self\<lparr>pressed_keys := p, releasing_keys := r, octave := v, time_offset := t\<rparr>"
proof (induction evs rule: rev_induct)
  case Nil
  have "run [] self = self\<lparr>pressed_keys := pressed_keys self,
     releasing_keys := releasing_keys self, octave := octave self,
     time_offset := time_offset self\<rparr>" by (simp add: run_Nil)
  then show ?case by blast
next
  case (snoc e evs)
  then obtain p r v t where 1: "run evs self =
     self\<lparr>pressed_keys := p, releasing_keys := r, octave := v, time_offset := t\<rparr>" by blast
  obtain p' r' v' t' where 2: "step (run evs self) e =
     (run evs self)\<lparr>pressed_keys := p', releasing_keys := r', octave := v', time_offset := t'\<rparr>"
    using step_frame [OF run_well_formed [OF assms]] by blast
  have "run (evs @ [e]) self =
     self\<lparr>pressed_keys := p', releasing_keys := r', octave := v', time_offset := t'\<rparr>"
    unfolding run_snoc 2 by (simp add: 1)
  then show ?case by blast
qed

lemma init_well_formed:
  assumes "init h a att rel sr cs = Inr s0"
  shows "well_formed s0"
  using assms
  by (auto simp: init_def Let_def well_formed_def split: option.splits if_splits)

lemma init_fields:
  assumes "init h a att rel sr cs = Inr s0"
  shows "n_attack_samples s0 = (if rel * sr = 0 \<or> att * sr = 0 then 1 else att * sr)"
    and "chunk_size s0 = nat cs" and "0 \<le> cs" and "sr \<noteq> 0"
    and "sample_rate s0 = sr" and "buffer_time_lapse s0 = real_of_int cs / sr"
    and "time_chunk s0 = linspace 0 (real_of_int cs / sr) (nat cs)"
    and "harmonics s0 = h" and "a = Some (amps s0)"
  using assms
  by (auto simp: init_def Let_def split: option.splits if_splits)






lemma step_KeyDown_releasing:
  assumes "well_formed self"
  shows "releasing_keys (step self (KeyDown k')) = releasing_keys self"
proof (cases "is_note_key k'")
  case True
  obtain f where "step self (KeyDown k') = self\<lparr>pressed_keys :=
            AList.update k' \<lparr>fundamental = octave self * f, amp = 0\<rparr> (pressed_keys self)\<rparr>"
    using step_KeyDown_note [OF True] assms(1) by (auto simp: well_formed_def)
  then show ?thesis by simp
next
  case False
  obtain v where "snd (key_to_freq self k') = self\<lparr>octave := v\<rparr>"
    using not_note_key_state [OF False, of self] by auto
  then show ?thesis using step_KeyDown_other [OF False, of self] by simp
qed


subsection \<open>One voice over a sequence of events\<close>



lemma init_dyadic: "init [1] (Some [1]) 1 1 8 3 = Inr dyadic_instrument"
  by (simp add: init_def dyadic_instrument_def Let_def)




subsection \<open>Chunks of a sustained voice\<close>

lemma array_add_maps: "array_add (map c ts) (map g ts) = map (\<lambda>t. c t + g t) ts"
  by (induction ts) (simp_all add: array_add_def)

lemma array_add_zeros_left: "length xs = n \<Longrightarrow> array_add (zeros n) xs = xs"
  by (induction xs arbitrary: n) (auto simp: array_add_def zeros_def)

lemma array_add_zeros_right: "length xs = n \<Longrightarrow> array_add xs (zeros n) = xs"
  by (induction xs arbitrary: n) (auto simp: array_add_def zeros_def)

lemma foldl_add_harmonic:
  "foldl (add_harmonic ts) (map c ts) fas =
     map (\<lambda>t. c t + (\<Sum>(f, a)\<leftarrow>fas. a * sin (2 * pi * f * t))) ts"
proof (induction fas arbitrary: c)
  case Nil
  then show ?case by simp
next
  case (Cons fa fas)
  obtain f a where fa: "fa = (f, a)" by (cases fa)
  have "add_harmonic ts (map c ts) fa = map (\<lambda>t. c t + a * sin (2 * pi * f * t)) ts"
    unfolding fa by (simp add: add_harmonic_def array_add_maps)
  then have "foldl (add_harmonic ts) (map c ts) (fa # fas) =
      foldl (add_harmonic ts) (map (\<lambda>t. c t + a * sin (2 * pi * f * t)) ts) fas"
    by simp
  also have "\<dots> = map (\<lambda>t. (c t + a * sin (2 * pi * f * t)) +
        (\<Sum>(f, a)\<leftarrow>fas. a * sin (2 * pi * f * t))) ts"
    by (rule Cons.IH)
  finally show ?case unfolding fa by (simp add: add.assoc)
qed

lemma zip_sum_closed_form:
  "(\<Sum>(f, a)\<leftarrow>zip (map (\<lambda>h. fund * h) hs) ws. a * sin (2 * pi * f * t)) =
     closed_form fund hs ws t"
proof -
  let ?xs = "map (\<lambda>(f, a). a * sin (2 * pi * f * t)) (zip (map (\<lambda>h. fund * h) hs) ws)"
  have l: "length ?xs = min (length hs) (length ws)" by simp
  have "sum_list ?xs = (\<Sum>i = 0..<length ?xs. ?xs ! i)" by (rule sum_list_sum_nth)
  also have "\<dots> = (\<Sum>i = 0..<min (length hs) (length ws). ?xs ! i)" unfolding l ..
  also have "\<dots> = (\<Sum>i = 0..<min (length hs) (length ws).
      ws ! i * sin (2 * pi * fund * hs ! i * t))"
    by (rule sum.cong) (simp_all add: mult.assoc)
  finally show ?thesis by (simp add: closed_form_def atLeast0LessThan)
qed

lemma generate_sound_chunk_closed_form:
  assumes "length (time_chunk self) = chunk_size self"
  shows "generate_sound_chunk self fund =
     map (\<lambda>t. closed_form fund (harmonics self) (amps self) (t + time_offset self))
       (time_chunk self)"
proof -
  let ?ts = "map (\<lambda>t. t + time_offset self) (time_chunk self)"
  have z: "zeros (chunk_size self) = map (\<lambda>t. 0) ?ts"
    using assms by (simp add: zeros_def map_replicate_const)
  have "generate_sound_chunk self fund =
      foldl (add_harmonic ?ts) (map (\<lambda>t. 0) ?ts)
        (zip (map (\<lambda>h. fund * h) (harmonics self)) (amps self))"
    unfolding generate_sound_chunk_def Let_def z ..
  also have "\<dots> = map (\<lambda>t. 0 + (\<Sum>(f, a)\<leftarrow>zip (map (\<lambda>h. fund * h) (harmonics self)) (amps self).
        a * sin (2 * pi * f * t))) ?ts"
    by (rule foldl_add_harmonic)
  also have "\<dots> = map (\<lambda>t. closed_form fund (harmonics self) (amps self) t) ?ts"
    by (simp add: zip_sum_closed_form)
  finally show ?thesis by (simp add: comp_def)
qed

lemma sustained_iteration:
  assumes p: "pressed_keys self = [(k, nt)]" and a: "1 \<le> amp nt"
    and r: "releasing_keys self = []"
    and l: "length (time_chunk self) = chunk_size self"
  shows "emit_sound_iteration self =
     (Inr (Some (generate_sound_chunk self (fundamental nt))),
      self\<lparr>time_offset :=
         (if time_offset self + buffer_time_lapse self > 360 then 0
          else time_offset self + buffer_time_lapse self)\<rparr>)"
proof -
  let ?kc = "generate_sound_chunk self (fundamental nt)"
  have lk: "length ?kc = chunk_size self"
    using l by (simp add: generate_sound_chunk_closed_form)
  have b: "pressed_body k (zeros (chunk_size self)) self = (Inr ?kc, self)"
    using p a lk by (simp add: pressed_body_def Let_def array_add_zeros_left)
  have gp: "generate_pressed_sound self = (Inr ?kc, self)"
    using p b by (simp add: generate_pressed_sound_def)
  have gr: "generate_releasing_sound self = (Inr (zeros (chunk_size self)), self)"
    using r by (simp add: generate_releasing_sound_def)
  have c: "array_add (zeros (chunk_size self)) (array_add ?kc (zeros (chunk_size self))) = ?kc"
    using lk by (simp add: array_add_zeros_left array_add_zeros_right)
  show ?thesis using p gp gr c by (simp add: emit_sound_iteration_def Let_def)
qed

lemma sustained_emit_sound:
  assumes "pressed_keys self = [(k, nt)]" and "1 \<le> amp nt"
    and "releasing_keys self = []"
    and "length (time_chunk self) = chunk_size self"
    and "0 \<le> buffer_time_lapse self"
    and "time_offset self + real N * buffer_time_lapse self \<le> 360"
  shows "emit_sound N self =
     (Inr (map (\<lambda>n. map (\<lambda>t. closed_form (fundamental nt) (harmonics self) (amps self)
                            (t + (time_offset self + real n * buffer_time_lapse self)))
                     (time_chunk self)) [0..<N]),
      self\<lparr>time_offset := time_offset self + real N * buffer_time_lapse self\<rparr>)"
  using assms
proof (induction N arbitrary: self)
  case 0
  then show ?case by simp
next
  case (Suc N)
  let ?L = "buffer_time_lapse self"
  let ?t0 = "time_offset self"
  let ?s1 = "self\<lparr>time_offset := ?t0 + ?L\<rparr>"
  have le: "?t0 + ?L \<le> 360"
  proof -
    have "0 \<le> real N * ?L" using Suc.prems(5) by simp
    then show ?thesis using Suc.prems(6) by (simp add: algebra_simps)
  qed
  have it: "emit_sound_iteration self =
     (Inr (Some (generate_sound_chunk self (fundamental nt))), ?s1)"
    using sustained_iteration [OF Suc.prems(1-4)] le by simp
  have c0: "generate_sound_chunk self (fundamental nt) =
     map (\<lambda>t. closed_form (fundamental nt) (harmonics self) (amps self) (t + ?t0))
       (time_chunk self)"
    by (rule generate_sound_chunk_closed_form [OF Suc.prems(4)])
  have ih: "emit_sound N ?s1 =
     (Inr (map (\<lambda>n. map (\<lambda>t. closed_form (fundamental nt) (harmonics ?s1) (amps ?s1)
                            (t + (time_offset ?s1 + real n * buffer_time_lapse ?s1)))
                     (time_chunk ?s1)) [0..<N]),
      ?s1\<lparr>time_offset := time_offset ?s1 + real N * buffer_time_lapse ?s1\<rparr>)"
  proof (rule Suc.IH)
    show "pressed_keys ?s1 = [(k, nt)]" using Suc.prems(1) by simp
    show "1 \<le> amp nt" by (rule Suc.prems(2))
    show "releasing_keys ?s1 = []" using Suc.prems(3) by simp
    show "length (time_chunk ?s1) = chunk_size ?s1" using Suc.prems(4) by simp
    show "0 \<le> buffer_time_lapse ?s1" using Suc.prems(5) by simp
    show "time_offset ?s1 + real N * buffer_time_lapse ?s1 \<le> 360"
      using Suc.prems(6) by (simp add: algebra_simps)
  qed
  have m: "map (\<lambda>n. map (\<lambda>t. closed_form (fundamental nt) (harmonics self) (amps self)
                            (t + (?t0 + real n * ?L))) (time_chunk self)) [0..<Suc N] =
     map (\<lambda>t. closed_form (fundamental nt) (harmonics self) (amps self) (t + ?t0))
       (time_chunk self) #
     map (\<lambda>n. map (\<lambda>t. closed_form (fundamental nt) (harmonics self) (amps self)
                            (t + (?t0 + ?L + real n * ?L))) (time_chunk self)) [0..<N]"
    unfolding map_upt_Suc by (simp add: algebra_simps)
  show ?case
    unfolding m using it ih c0 by (simp add: algebra_simps)
qed

lemma concat_blocks: "concat (map (\<lambda>n. map (\<lambda>i. H (n * c + i)) [0..<c]) [0..<N]) = map H [0..<N * c]"
proof (induction N)
  case 0
  then show ?case by simp
next
  case (Suc N)
  have "map H [N * c..<N * c + c] = map (\<lambda>i. H (N * c + i)) [0..<c]"
  proof -
    have "[N * c..<N * c + c] = map (\<lambda>i. i + N * c) [0..<c]"
      by (simp add: map_add_upt add.commute)
    then show ?thesis by (simp add: comp_def add.commute)
  qed
  moreover have "[0..<Suc N * c] = [0..<N * c] @ [N * c..<N * c + c]"
    using upt_add_eq_append [of 0 "N * c" c] by (simp add: add.commute)
  ultimately show ?case using Suc by simp
qed

lemma concat_linspace:
  "concat (map (\<lambda>n. map (\<lambda>t. G (t + (t0 + real n * L))) (linspace 0 L c)) [0..<N]) =
     map G (map (\<lambda>t. t + t0) (linspace 0 (real N * L) (N * c)))"
proof (cases "c = 0 \<or> N = 0")
  case True
  then show ?thesis by (auto simp: linspace_def)
next
  case False
  then have c: "0 < c" and n: "0 < N" by auto
  define st where "st = L / real c"
  define H where "H j = G (real j * st + t0)" for j
  have s2: "(real N * L - 0) / real (N * c) = st" using n c by (simp add: st_def)
  have s1: "(L - 0) / real c = st" by (simp add: st_def)
  have cs: "real c * st = L" using c by (simp add: st_def)
  have e: "G (real i * st + (t0 + real n * L)) = H (n * c + i)" for n i
  proof -
    have a1: "real (n * c + i) * st = real n * (real c * st) + real i * st"
      by (simp add: algebra_simps)
    have a2: "real (n * c + i) * st = real n * L + real i * st"
      unfolding a1 cs ..
    have "real i * st + (t0 + real n * L) = real (n * c + i) * st + t0"
      unfolding a2 by simp
    then show ?thesis by (simp only: H_def)
  qed
  have "concat (map (\<lambda>n. map (\<lambda>t. G (t + (t0 + real n * L))) (linspace 0 L c)) [0..<N]) =
        concat (map (\<lambda>n. map (\<lambda>i. H (n * c + i)) [0..<c]) [0..<N])"
    unfolding linspace_def s1 by (simp add: comp_def e)
  also have "\<dots> = map H [0..<N * c]" by (rule concat_blocks)
  also have "\<dots> = map G (map (\<lambda>t. t + t0) (linspace 0 (real N * L) (N * c)))"
    unfolding linspace_def s2 by (simp add: comp_def H_def)
  finally show ?thesis .
qed

lemma length_linspace: "length (linspace x y n) = n"
  by (simp add: linspace_def)

section \<open>Claims\<close>

text \<open>
  C1. The claim: for a symbol that resolves to no frequency (the octave keys and the
  symbols outside the layout) \<open>key_press\<close> leaves the registries alone and returns
  normally. The code multiplies \<open>octave\<close> by the \<open>None\<close> that \<open>_key_to_freq\<close> returns
  before it tests the product, so it raises \<open>TypeError\<close>: for \<open>q\<close> with the instrument
  unchanged, for \<open>z\<close> and \<open>x\<close> with \<open>octave\<close> already changed.
\<close>

theorem key_press_unresolved_raises:
  "key_press self (CHR ''q'') = (Inl TypeError, self) \<and>
   key_press self (CHR ''z'') = (Inl TypeError, self\<lparr>octave := octave self / 2\<rparr>) \<and>
   key_press self (CHR ''x'') = (Inl TypeError, self\<lparr>octave := octave self * 2\<rparr>)"
  by (simp add: key_press_def key_to_freq_def)

text \<open>
  C2. The claim: \<open>key_release\<close> for a note key that is not in \<open>pressed_keys\<close> does
  nothing and does not fail. The code reads \<open>self.pressed_keys[in_key]\<close> without a
  test: on the fresh instrument, releasing \<open>a\<close> raises \<open>KeyError\<close> (and leaves the
  instrument as it was).
\<close>

theorem key_release_absent_raises:
  "key_release default_instrument (CHR ''a'') = (Inl KeyError, default_instrument)"
  by (simp add: key_release_def key_to_freq_def default_instrument_def)

text \<open>
  C3. The claim: a releasing voice loses \<open>chunk_size/n_release_samples\<close> per tick. The
  code divides by \<open>n_attack_samples\<close>: a voice held for nine ticks (amplitude 1), released
  and ticked once has amplitude \<open>1 - 512/4410\<close>, not \<open>1 - 512/26460\<close>.
\<close>

theorem release_ramp_uses_attack_count:
  "map_of (releasing_keys
      (run (KeyDown (CHR ''a'') # replicate 9 Tick @ [KeyUp (CHR ''a''), Tick])
         default_instrument)) (CHR ''a'')
     = Some \<lparr>fundamental = 261.63, amp = 1 - 512 / 4410\<rparr> \<and>
   real (chunk_size default_instrument) / n_attack_samples default_instrument = 512 / 4410 \<and>
   real (chunk_size default_instrument) / n_release_samples default_instrument = 512 / 26460"
  by (simp add: eval_defs default_instrument_def numeral_eq_Suc)

text \<open>
  C7. The claim: constructing an instrument whose harmonics and amplitudes differ in
  length fails. The assertion in \<open>__init__\<close> tests a tuple and never fails: with two
  harmonics and one amplitude the constructor returns an instrument.
\<close>

theorem init_length_mismatch_succeeds:
  "\<exists>self. init [1, 2] (Some [1]) 0.1 0.6 44100 512 = Inr self \<and>
      harmonics self = [1, 2] \<and> amps self = [1]"
  by (simp add: init_def Let_def)


text \<open>
  C4. The claim: every stored amplitude stays within \<open>[0,1]\<close>. The attack loop clamps
  the amplitude it stores at 1; the release loop stores the amplitude it computes as it
  is, and the note is deleted only by the next tick. So a releasing note holds a
  negative amplitude between two ticks. On the default instrument, held for nine ticks,
  released and ticked nine times, the voice is in \<open>releasing_keys\<close> with amplitude
  \<open>-11/245\<close>. On the instrument whose attack and release are equal, held for three ticks,
  released and ticked three times, the amplitudes are \<open>5/8\<close>, \<open>1/4\<close> and \<open>-1/8\<close>.
\<close>

theorem negative_release_amplitude_stored:
  "init [1] (Some [1]) 0.1 0.6 44100 512 = Inr default_instrument \<and>
   map_of (releasing_keys
      (run (KeyDown (CHR ''a'') # replicate 9 Tick @ KeyUp (CHR ''a'') # replicate 9 Tick)
         default_instrument)) (CHR ''a'')
     = Some \<lparr>fundamental = 261.63, amp = - (11 / 245)\<rparr> \<and>
   \<not> (0 \<le> amp \<lparr>fundamental = 261.63, amp = - (11 / 245)\<rparr>) \<and>
   init [1] (Some [1]) 1 1 8 3 = Inr dyadic_instrument \<and>
   map_of (releasing_keys
      (run (KeyDown (CHR ''a'') # replicate 3 Tick @ KeyUp (CHR ''a'') # replicate 3 Tick)
         dyadic_instrument)) (CHR ''a'')
     = Some \<lparr>fundamental = 261.63, amp = - (1 / 8)\<rparr> \<and>
   \<not> (0 \<le> amp \<lparr>fundamental = 261.63, amp = - (1 / 8)\<rparr>)"
proof (intro conjI)
  show "init [1] (Some [1]) 0.1 0.6 44100 512 = Inr default_instrument"
    by (rule init_default)
  show "map_of (releasing_keys
      (run (KeyDown (CHR ''a'') # replicate 9 Tick @ KeyUp (CHR ''a'') # replicate 9 Tick)
         default_instrument)) (CHR ''a'')
     = Some \<lparr>fundamental = 261.63, amp = - (11 / 245)\<rparr>"
    by (simp add: eval_defs default_instrument_def numeral_eq_Suc)
  show "\<not> (0 \<le> amp \<lparr>fundamental = 261.63, amp = - (11 / 245)\<rparr>)"
    by simp
  show "init [1] (Some [1]) 1 1 8 3 = Inr dyadic_instrument"
    by (rule init_dyadic)
  show "map_of (releasing_keys
      (run (KeyDown (CHR ''a'') # replicate 3 Tick @ KeyUp (CHR ''a'') # replicate 3 Tick)
         dyadic_instrument)) (CHR ''a'')
     = Some \<lparr>fundamental = 261.63, amp = - (1 / 8)\<rparr>"
    by (simp add: eval_defs dyadic_instrument_def numeral_eq_Suc)
  show "\<not> (0 \<le> amp \<lparr>fundamental = 261.63, amp = - (1 / 8)\<rparr>)"
    by simp
qed

text \<open>
  C8. In an instrument reached from the constructor, \<open>key_release\<close> for a symbol that is
  in \<open>pressed_keys\<close> returns normally, removes the note from \<open>pressed_keys\<close> and stores
  in \<open>releasing_keys\<close> a note with the same fundamental and the same amplitude.
\<close>

theorem key_release_carries_voice:
  assumes "init h a att rel sr cs = Inr s0" and "s = run evs s0"
    and "map_of (pressed_keys s) k = Some nt"
  shows "key_release s k =
           (Inr (), s\<lparr>releasing_keys := AList.update k nt (releasing_keys s),
                       pressed_keys := AList.delete k (pressed_keys s)\<rparr>) \<and>
         map_of (releasing_keys (snd (key_release s k))) k = Some nt \<and>
         map_of (pressed_keys (snd (key_release s k))) k = None"
proof -
  have w: "well_formed s" unfolding assms(2) by (rule run_well_formed [OF init_well_formed [OF assms(1)]])
  have "k \<in> set (map fst (pressed_keys s))"
    using assms(3) by (metis map_of_eq_None_iff option.distinct(1) set_map)
  then have "is_note_key k" using w by (auto simp: well_formed_def list_all_iff)
  then obtain f where f: "fst (key_to_freq s k) = Some f"
    using is_note_key_iff [of k s] by auto
  have 1: "key_release s k =
           (Inr (), s\<lparr>releasing_keys := AList.update k nt (releasing_keys s),
                       pressed_keys := AList.delete k (pressed_keys s)\<rparr>)"
    using key_release_Some [OF f] assms(3) by simp
  show ?thesis unfolding 1 by (simp add: update_conv' delete_conv')
qed

theorem key_release_carries_voice_witness:
  "init [1] (Some [1]) 0.1 0.6 44100 512 = Inr default_instrument \<and>
   map_of (pressed_keys (run [KeyDown (CHR ''a''), Tick] default_instrument)) (CHR ''a'')
     = Some \<lparr>fundamental = 261.63, amp = 512 / 4410\<rparr> \<and>
   map_of (releasing_keys (snd (key_release (run [KeyDown (CHR ''a''), Tick] default_instrument)
      (CHR ''a'')))) (CHR ''a'') = Some \<lparr>fundamental = 261.63, amp = 512 / 4410\<rparr> \<and>
   map_of (pressed_keys (snd (key_release (run [KeyDown (CHR ''a''), Tick] default_instrument)
      (CHR ''a'')))) (CHR ''a'') = None"
proof -
  have p: "map_of (pressed_keys (run [KeyDown (CHR ''a''), Tick] default_instrument)) (CHR ''a'')
     = Some \<lparr>fundamental = 261.63, amp = 512 / 4410\<rparr>"
    by (simp add: eval_defs default_instrument_def)
  show ?thesis
    using key_release_carries_voice [OF init_default refl p] p init_default by blast
qed







text \<open>
  C9. Phase continuity, over exact reals. Take an instrument reached from the
  constructor (with a positive sample rate) that holds one pressed voice at full
  amplitude and no releasing voice, and \<open>N\<close> passes of the render loop during which the
  time offset stays within the wrap threshold of 360 seconds. The loop writes \<open>N\<close>
  chunks, and their concatenation is the closed-form sum of the weighted sines of the
  harmonics, evaluated on the one vector of \<open>N * chunk_size\<close> sample times
  \<open>np.linspace(0, N * buffer_time_lapse, N * chunk_size, endpoint=False)\<close> shifted by the
  time offset at the start: the phase does not jump at a chunk boundary.
\<close>

theorem phase_continuity:
  assumes "init h (Some a) att rel sr cs = Inr s0" and "0 < sr" and "s = run evs s0"
    and "pressed_keys s = [(k, nt)]" and "1 \<le> amp nt" and "releasing_keys s = []"
    and "time_offset s + real N * (real_of_int cs / sr) \<le> 360"
  shows "\<exists>chunks s'. emit_sound N s = (Inr chunks, s') \<and>
           concat chunks =
             map (closed_form (fundamental nt) h a)
               (map (\<lambda>t. t + time_offset s)
                  (linspace 0 (real N * (real_of_int cs / sr)) (N * nat cs)))"
proof -
  let ?L = "real_of_int cs / sr"
  obtain p r v t where fr: "s =
     s0\<lparr>pressed_keys := p, releasing_keys := r, octave := v, time_offset := t\<rparr>"
    using run_frame [OF init_well_formed [OF assms(1)]] assms(3) by blast
  have cfg: "harmonics s = h" "amps s = a" "chunk_size s = nat cs"
    "buffer_time_lapse s = ?L" "time_chunk s = linspace 0 ?L (nat cs)"
    using init_fields [OF assms(1)] unfolding fr by simp_all
  have l: "length (time_chunk s) = chunk_size s" by (simp add: cfg length_linspace)
  have nn: "0 \<le> buffer_time_lapse s"
    using init_fields(3) [OF assms(1)] assms(2) by (simp add: cfg)
  have b: "time_offset s + real N * buffer_time_lapse s \<le> 360"
    using assms(7) by (simp add: cfg)
  have e: "emit_sound N s =
     (Inr (map (\<lambda>n. map (\<lambda>t. closed_form (fundamental nt) h a
                            (t + (time_offset s + real n * ?L)))
                     (linspace 0 ?L (nat cs))) [0..<N]),
      s\<lparr>time_offset := time_offset s + real N * ?L\<rparr>)"
    using sustained_emit_sound [OF assms(4,5,6) l nn b] unfolding cfg .
  have c: "concat (map (\<lambda>n. map (\<lambda>t. closed_form (fundamental nt) h a
                            (t + (time_offset s + real n * ?L)))
                     (linspace 0 ?L (nat cs))) [0..<N]) =
      map (closed_form (fundamental nt) h a)
               (map (\<lambda>t. t + time_offset s) (linspace 0 (real N * ?L) (N * nat cs)))"
    by (rule concat_linspace)
  show ?thesis using e c by blast
qed

theorem phase_continuity_witness:
  "init [1] (Some [1]) 0.1 0.6 44100 512 = Inr default_instrument \<and>
   (0::real) < 44100 \<and>
   pressed_keys (run (KeyDown (CHR ''a'') # replicate 9 Tick) default_instrument) =
      [(CHR ''a'', \<lparr>fundamental = 261.63, amp = 1\<rparr>)] \<and>
   1 \<le> amp \<lparr>fundamental = 261.63, amp = 1\<rparr> \<and>
   releasing_keys (run (KeyDown (CHR ''a'') # replicate 9 Tick) default_instrument) = [] \<and>
   time_offset (run (KeyDown (CHR ''a'') # replicate 9 Tick) default_instrument)
      + real 2 * (real_of_int 512 / 44100) \<le> 360 \<and>
   (\<exists>chunks s'. emit_sound 2 (run (KeyDown (CHR ''a'') # replicate 9 Tick) default_instrument)
        = (Inr chunks, s') \<and>
      concat chunks =
        map (closed_form (fundamental \<lparr>fundamental = 261.63, amp = 1\<rparr>) [1] [1])
          (map (\<lambda>t. t + time_offset (run (KeyDown (CHR ''a'') # replicate 9 Tick) default_instrument))
             (linspace 0 (real 2 * (real_of_int 512 / 44100)) (2 * nat 512))))"
proof -
  let ?s = "run (KeyDown (CHR ''a'') # replicate 9 Tick) default_instrument"
  let ?nt = "\<lparr>fundamental = 261.63, amp = 1\<rparr>"
  have sr: "(0::real) < 44100" by simp
  have p: "pressed_keys ?s = [(CHR ''a'', ?nt)]"
    by (simp add: eval_defs default_instrument_def numeral_eq_Suc)
  have a: "1 \<le> amp ?nt" by simp
  have r: "releasing_keys ?s = []"
    by (simp add: eval_defs default_instrument_def numeral_eq_Suc)
  have t: "time_offset ?s + real 2 * (real_of_int 512 / 44100) \<le> 360"
    by (simp add: eval_defs default_instrument_def numeral_eq_Suc)
  show ?thesis
    using phase_continuity [OF init_default sr refl p a r t] init_default sr p a r t
    by blast
qed

end
